theory Spec2Isabelle
  imports Main "HOL-Library.Multiset"
begin

section \<open>Data model (app/models.py)\<close>

text \<open>
  A UUID is an opaque 128-bit token, a \<open>datetime\<close> a point on the time line; both are
  only compared, so they are modelled as numbers. A \<open>string\<close> stands for a Python
  \<open>str\<close>, one \<open>char\<close> for one code point.
\<close>

type_synonym uuid = nat
type_synonym datetime = int

text \<open>
  \<open>NoteCreate\<close> inherits \<open>title: str\<close> and \<open>content: str\<close> from \<open>NoteBase\<close>.
\<close>

record NoteCreate =
  c_title :: string
  c_content :: string

text \<open>
  \<open>NoteUpdate\<close> declares \<open>title: str | None\<close> and \<open>content: str | None\<close>, both
  defaulting to \<open>None\<close>. Pydantic also remembers which fields the caller set
  (\<open>model_fields_set\<close>). The outer \<open>option\<close> is that membership: \<open>None\<close> is a
  field that was not set, \<open>Some None\<close> a field set to \<open>None\<close> explicitly,
  \<open>Some (Some s)\<close> a field set to the string \<open>s\<close>.
\<close>

record NoteUpdate =
  u_title :: "string option option"
  u_content :: "string option option"

text \<open>
  \<open>Note\<close> is declared with \<open>title: str\<close> and \<open>content: str\<close>, but the model has no
  \<open>validate_assignment\<close>, so at run time an attribute holds whatever \<open>setattr\<close>
  stored in it, \<open>None\<close> included: the two fields are \<open>string option\<close>.
\<close>

record Note =
  title :: "string option"
  content :: "string option"
  note_id :: uuid
  created_at :: datetime
  updated_at :: datetime

datatype py_error = ValidationError | ValueError

text \<open>
  The \<open>Field\<close> constraints of \<open>NoteBase\<close>: \<open>title\<close> has \<open>min_length=1\<close> and
  \<open>max_length=200\<close>, \<open>content\<close> has \<open>min_length=1\<close>.
\<close>

definition NoteBase_valid :: "string \<Rightarrow> string \<Rightarrow> bool" where
  "NoteBase_valid t c \<longleftrightarrow> 1 \<le> length t \<and> length t \<le> 200 \<and> 1 \<le> length c"


datatype field_name = Title | Content

text \<open>
  \<open>note_data.model_dump(exclude_unset=True)\<close>: the fields that were set, in
  declaration order, with their values.
\<close>

definition model_dump_exclude_unset :: "NoteUpdate \<Rightarrow> (field_name \<times> string option) list" where
  "model_dump_exclude_unset u =
     (case u_title u of None \<Rightarrow> [] | Some v \<Rightarrow> [(Title, v)]) @
     (case u_content u of None \<Rightarrow> [] | Some v \<Rightarrow> [(Content, v)])"

fun setattr :: "Note \<Rightarrow> field_name \<times> string option \<Rightarrow> Note" where
  "setattr n (Title, v) = n\<lparr>title := v\<rparr>"
| "setattr n (Content, v) = n\<lparr>content := v\<rparr>"

section \<open>The store (app/storage.py)\<close>

text \<open>
  Python lists hold references, and \<open>update\<close> mutates a \<open>Note\<close> object in place, so
  the objects live in an explicit heap. A reference is an index into \<open>heap\<close>; a new
  object is allocated at the end and none is ever moved. \<open>notes'\<close> is the list
  \<open>self._notes\<close> of the storage, \<open>log\<close> the records handed to the module's logger.
\<close>

type_synonym ref = nat

datatype log_level = INFO | WARNING
datatype log_arg = NoArg | ArgId uuid | ArgInt nat
type_synonym log_record = "log_level \<times> string \<times> log_arg"

record storage =
  heap :: "Note list"
  notes' :: "ref list"
  log :: "log_record list"

definition logger :: "log_record \<Rightarrow> storage \<Rightarrow> storage" where
  "logger r s = s\<lparr>log := log s @ [r]\<rparr>"

text \<open>\<open>NoteStorage.__init__\<close> on a heap that holds no note yet.\<close>

definition init :: storage where
  "init = \<lparr>heap = [], notes' = [], log = [(INFO, ''NoteStorage initialized'', NoArg)]\<rparr>"

text \<open>
  \<open>Note(**note_data.model_dump())\<close> validates \<open>title\<close> and \<open>content\<close> against the
  constraints of \<open>NoteBase\<close> and raises \<open>ValidationError\<close> when they fail. The three
  default factories run once each: \<open>uuid4()\<close> gives \<open>uid\<close>, the first
  \<open>datetime.now(UTC)\<close> gives \<open>t_created\<close> and the second, a separate reading of
  the clock, gives \<open>t_updated\<close>.
\<close>

definition Note_init :: "NoteCreate \<Rightarrow> uuid \<Rightarrow> datetime \<Rightarrow> datetime \<Rightarrow> py_error + Note" where
  "Note_init note_data uid t_created t_updated =
     (if NoteBase_valid (c_title note_data) (c_content note_data)
      then Inr \<lparr>title = Some (c_title note_data), content = Some (c_content note_data),
                note_id = uid, created_at = t_created, updated_at = t_updated\<rparr>
      else Inl ValidationError)"

text \<open>\<open>create\<close>. The result is the reference of the new object.\<close>

definition create ::
  "storage \<Rightarrow> NoteCreate \<Rightarrow> uuid \<Rightarrow> datetime \<Rightarrow> datetime \<Rightarrow> (py_error + ref) \<times> storage" where
  "create s note_data uid t_created t_updated =
     (case Note_init note_data uid t_created t_updated of
        Inl e \<Rightarrow> (Inl e, s)
      | Inr note \<Rightarrow>
          let r = length (heap s);
              s1 = s\<lparr>heap := heap s @ [note], notes' := notes' s @ [r]\<rparr>
          in (Inr r, logger (INFO, ''Note created with ID: %s'', ArgId (note_id note)) s1))"

text \<open>
  \<open>sorted(xs, key=k, reverse=True)\<close> builds a new list. CPython keeps the sort stable
  under \<open>reverse\<close> by reversing the list, sorting it stably in ascending order and
  reversing the result.
\<close>

definition sorted_reverse :: "('a \<Rightarrow> 'k::linorder) \<Rightarrow> 'a list \<Rightarrow> 'a list" where
  "sorted_reverse k xs = rev (sort_key k (rev xs))"

definition get_all :: "storage \<Rightarrow> ref list \<times> storage" where
  "get_all s =
     (let ns = sorted_reverse (\<lambda>x. created_at (heap s ! x)) (notes' s)
      in (ns, logger (INFO, ''Retrieved %d notes'', ArgInt (length ns)) s))"

text \<open>
  \<open>get_by_id\<close>: \<open>next(...)\<close> over the generator yields the first note of the list
  whose id matches, or \<open>None\<close>. A \<open>Note\<close> object is always truthy.
\<close>

definition get_by_id :: "storage \<Rightarrow> uuid \<Rightarrow> ref option \<times> storage" where
  "get_by_id s nid =
     (let note = find (\<lambda>r. note_id (heap s ! r) = nid) (notes' s)
      in case note of
           Some r \<Rightarrow> (note, logger (INFO, ''Note found with ID: %s'', ArgId nid) s)
         | None \<Rightarrow> (note, logger (WARNING, ''Note not found with ID: %s'', ArgId nid) s))"

text \<open>
  \<open>update\<close>. \<open>now\<close> is the reading of \<open>datetime.now(UTC)\<close>; the clock is read
  only when the note was found.
\<close>

definition update ::
  "storage \<Rightarrow> uuid \<Rightarrow> NoteUpdate \<Rightarrow> datetime \<Rightarrow> ref option \<times> storage" where
  "update s nid note_data now =
     (case get_by_id s nid of
        (None, s1) \<Rightarrow>
          (None, logger (WARNING, ''Cannot update - note not found with ID: %s'', ArgId nid) s1)
      | (Some r, s1) \<Rightarrow>
          let update_data = model_dump_exclude_unset note_data;
              n1 = foldl setattr (heap s1 ! r) update_data;
              n2 = n1\<lparr>updated_at := now\<rparr>;
              s2 = s1\<lparr>heap := (heap s1)[r := n2]\<rparr>
          in (Some r, logger (INFO, ''Note updated with ID: %s'', ArgId nid) s2))"

text \<open>
  \<open>list.remove(x)\<close> deletes the first element that is \<open>x\<close> or compares equal to it
  and raises \<open>ValueError\<close> when there is none. Pydantic models compare equal when
  their field values are equal.
\<close>

fun list_remove :: "Note list \<Rightarrow> ref \<Rightarrow> ref list \<Rightarrow> ref list option" where
  "list_remove h r [] = None"
| "list_remove h r (x # xs) =
     (if x = r \<or> h ! x = h ! r then Some xs
      else map_option ((#) x) (list_remove h r xs))"

definition delete :: "storage \<Rightarrow> uuid \<Rightarrow> (py_error + bool) \<times> storage" where
  "delete s nid =
     (case get_by_id s nid of
        (Some r, s1) \<Rightarrow>
          (case list_remove (heap s1) r (notes' s1) of
             None \<Rightarrow> (Inl ValueError, s1)
           | Some ns \<Rightarrow>
               (Inr True, logger (INFO, ''Note deleted with ID: %s'', ArgId nid) (s1\<lparr>notes' := ns\<rparr>)))
      | (None, s1) \<Rightarrow>
          (Inr False, logger (WARNING, ''Cannot delete - note not found with ID: %s'', ArgId nid) s1))"

definition clear :: "storage \<Rightarrow> storage" where
  "clear s =
     (let count = length (notes' s)
      in logger (INFO, ''Cleared %d notes from storage'', ArgInt count) (s\<lparr>notes' := []\<rparr>))"

section \<open>Sequences of calls\<close>

text \<open>
  The arguments of one call of \<open>create\<close>: the payload and what \<open>uuid4()\<close> and the
  two readings of the clock return during it.
\<close>

type_synonym create_call = "NoteCreate \<times> uuid \<times> datetime \<times> datetime"

fun create_all :: "storage \<Rightarrow> create_call list \<Rightarrow> storage" where
  "create_all s [] = s"
| "create_all s ((note_data, uid, t_created, t_updated) # cs) =
     create_all (snd (create s note_data uid t_created t_updated)) cs"

text \<open>The note a call constructs, and the clock reading that becomes its \<open>created_at\<close>.\<close>

fun built :: "create_call \<Rightarrow> py_error + Note" where
  "built (note_data, uid, t_created, t_updated) = Note_init note_data uid t_created t_updated"

fun created_reading :: "create_call \<Rightarrow> datetime" where
  "created_reading (note_data, uid, t_created, t_updated) = t_created"

text \<open>
  A call of any operation of the store, with what the environment returns during it.
  \<open>step\<close> is the state after the call, \<open>clock_reads\<close> the readings of
  \<open>datetime.now(UTC)\<close> that belong to it, in the order they are taken. (An \<open>update\<close>
  that finds no note does not look at the clock; its reading is then unused.)
\<close>

datatype op =
    Create NoteCreate uuid datetime datetime
  | GetAll
  | GetById uuid
  | Update uuid NoteUpdate datetime
  | Delete uuid
  | Clear

fun step :: "storage \<Rightarrow> op \<Rightarrow> storage" where
  "step s (Create note_data uid t_created t_updated) = snd (create s note_data uid t_created t_updated)"
| "step s GetAll = snd (get_all s)"
| "step s (GetById nid) = snd (get_by_id s nid)"
| "step s (Update nid note_data now) = snd (update s nid note_data now)"
| "step s (Delete nid) = snd (delete s nid)"
| "step s Clear = clear s"

fun clock_reads :: "op \<Rightarrow> datetime list" where
  "clock_reads (Create note_data uid t_created t_updated) = [t_created, t_updated]"
| "clock_reads (Update nid note_data now) = [now]"
| "clock_reads GetAll = []"
| "clock_reads (GetById nid) = []"
| "clock_reads (Delete nid) = []"
| "clock_reads Clear = []"

section \<open>Predicates on store states\<close>

text \<open>Every reference held by the collection points to an allocated object.\<close>

definition wf :: "storage \<Rightarrow> bool" where
  "wf s \<longleftrightarrow> (\<forall>r \<in> set (notes' s). r < length (heap s))"

text \<open>The ids of the stored notes, in the order of the collection.\<close>

definition stored_ids :: "storage \<Rightarrow> uuid list" where
  "stored_ids s = map (\<lambda>r. note_id (heap s ! r)) (notes' s)"

text \<open>The data model's invariant that an id is unique across the live notes.\<close>

definition unique_ids :: "storage \<Rightarrow> bool" where
  "unique_ids s \<longleftrightarrow> distinct (stored_ids s)"

text \<open>Every stored note has \<open>created_at \<le> updated_at\<close>.\<close>

definition timestamps_ordered :: "storage \<Rightarrow> bool" where
  "timestamps_ordered s \<longleftrightarrow>
     (\<forall>r \<in> set (notes' s). created_at (heap s ! r) \<le> updated_at (heap s ! r))"

text \<open>No stored note was created after the time \<open>t\<close>.\<close>

definition created_by :: "datetime \<Rightarrow> storage \<Rightarrow> bool" where
  "created_by t s \<longleftrightarrow> (\<forall>r \<in> set (notes' s). created_at (heap s ! r) \<le> t)"

text \<open>No stored note was updated after the time \<open>t\<close>.\<close>

definition updated_by :: "datetime \<Rightarrow> storage \<Rightarrow> bool" where
  "updated_by t s \<longleftrightarrow> (\<forall>r \<in> set (notes' s). updated_at (heap s ! r) \<le> t)"

text \<open>What a caller holding the references \<open>rs\<close> sees through them in state \<open>s\<close>.\<close>

definition view :: "storage \<Rightarrow> ref list \<Rightarrow> Note list" where
  "view s rs = map (\<lambda>r. heap s ! r) rs"

section \<open>Example stores\<close>

definition note_A :: Note where
  "note_A = \<lparr>title = Some ''A'', content = Some ''a'', note_id = 11, created_at = 100, updated_at = 100\<rparr>"

definition note_B :: Note where
  "note_B = \<lparr>title = Some ''B'', content = Some ''b'', note_id = 22, created_at = 200, updated_at = 200\<rparr>"

definition note_C :: Note where
  "note_C = \<lparr>title = Some ''C'', content = Some ''c'', note_id = 33, created_at = 300, updated_at = 300\<rparr>"

definition store_ABC :: storage where
  "store_ABC = \<lparr>heap = [note_A, note_B, note_C], notes' = [0, 1, 2], log = []\<rparr>"

text \<open>A store where two notes have the same creation time.\<close>

definition store_ties :: storage where
  "store_ties = \<lparr>heap = [note_A\<lparr>created_at := 5\<rparr>, note_B\<lparr>created_at := 7\<rparr>, note_C\<lparr>created_at := 5\<rparr>],
                  notes' = [0, 1, 2], log = []\<rparr>"

text \<open>Three creates on a new store, the clock moving on between them.\<close>

definition calls_ABC :: "create_call list" where
  "calls_ABC =
     [(\<lparr>c_title = ''A'', c_content = ''a''\<rparr>, 11, 100, 100),
      (\<lparr>c_title = ''B'', c_content = ''b''\<rparr>, 22, 200, 200),
      (\<lparr>c_title = ''C'', c_content = ''c''\<rparr>, 33, 300, 300)]"

text \<open>Two creates during which the clock shows the same time.\<close>

definition calls_tied :: "create_call list" where
  "calls_tied =
     [(\<lparr>c_title = ''A'', c_content = ''a''\<rparr>, 11, 100, 100),
      (\<lparr>c_title = ''B'', c_content = ''b''\<rparr>, 22, 100, 100)]"

text \<open>A run of calls on a new store, the clock never going back.\<close>

definition calls_mixed :: "op list" where
  "calls_mixed =
     [Create \<lparr>c_title = ''A'', c_content = ''a''\<rparr> 11 100 100,
      Create \<lparr>c_title = ''B'', c_content = ''b''\<rparr> 22 200 201,
      GetAll,
      Update 11 \<lparr>u_title = Some (Some ''A2''), u_content = None\<rparr> 300,
      GetById 22,
      Delete 22,
      Create \<lparr>c_title = ''C'', c_content = ''c''\<rparr> 33 400 400]"

section \<open>Basic facts about the operations\<close>

lemma logger_fields [simp]:
  "heap (logger r s) = heap s"
  "notes' (logger r s) = notes' s"
  "log (logger r s) = log s @ [r]"
  by (simp_all add: logger_def)

lemma wf_logger [simp]: "wf (logger r s) = wf s"
  by (simp add: wf_def)

lemma stored_ids_logger [simp]: "stored_ids (logger r s) = stored_ids s"
  by (simp add: stored_ids_def)

lemma get_by_id_fst: "fst (get_by_id s nid) = find (\<lambda>r. note_id (heap s ! r) = nid) (notes' s)"
  by (simp add: get_by_id_def Let_def split: option.splits)

lemma get_by_id_frame [simp]:
  "heap (snd (get_by_id s nid)) = heap s"
  "notes' (snd (get_by_id s nid)) = notes' s"
  by (simp_all add: get_by_id_def Let_def split: option.splits)

lemma get_by_id_None_iff: "fst (get_by_id s nid) = None \<longleftrightarrow> nid \<notin> set (stored_ids s)"
  by (auto simp: get_by_id_fst find_None_iff stored_ids_def)

lemma get_by_id_SomeD:
  assumes "fst (get_by_id s nid) = Some r"
  shows "r \<in> set (notes' s)" and "note_id (heap s ! r) = nid"
  using assms by (auto simp: get_by_id_fst find_Some_iff)

lemma get_by_id_found:
  assumes "nid \<in> set (stored_ids s)"
  obtains r where "fst (get_by_id s nid) = Some r"
  using assms get_by_id_None_iff [of s nid] by (cases "fst (get_by_id s nid)") auto

lemma update_not_found:
  assumes "fst (get_by_id s nid) = None"
  shows "fst (update s nid nu now) = None"
    and "heap (snd (update s nid nu now)) = heap s"
    and "notes' (snd (update s nid nu now)) = notes' s"
proof -
  obtain s1 where g: "get_by_id s nid = (None, s1)"
    using assms by (cases "get_by_id s nid") simp
  have "heap s1 = heap s" "notes' s1 = notes' s"
    using get_by_id_frame [of s nid] g by simp_all
  then show "fst (update s nid nu now) = None"
    and "heap (snd (update s nid nu now)) = heap s"
    and "notes' (snd (update s nid nu now)) = notes' s"
    by (simp_all add: update_def g)
qed

lemma update_found:
  assumes "fst (get_by_id s nid) = Some r"
  shows "fst (update s nid nu now) = Some r"
    and "heap (snd (update s nid nu now)) =
           (heap s)[r := (foldl setattr (heap s ! r) (model_dump_exclude_unset nu))\<lparr>updated_at := now\<rparr>]"
    and "notes' (snd (update s nid nu now)) = notes' s"
proof -
  obtain s1 where g: "get_by_id s nid = (Some r, s1)"
    using assms by (cases "get_by_id s nid") simp
  have "heap s1 = heap s" "notes' s1 = notes' s"
    using get_by_id_frame [of s nid] g by simp_all
  then show "fst (update s nid nu now) = Some r"
    and "heap (snd (update s nid nu now)) =
           (heap s)[r := (foldl setattr (heap s ! r) (model_dump_exclude_unset nu))\<lparr>updated_at := now\<rparr>]"
    and "notes' (snd (update s nid nu now)) = notes' s"
    by (simp_all add: update_def g Let_def)
qed

lemma merged_fields:
  "title (foldl setattr n (model_dump_exclude_unset nu)) = (case u_title nu of None \<Rightarrow> title n | Some v \<Rightarrow> v)"
  "content (foldl setattr n (model_dump_exclude_unset nu)) = (case u_content nu of None \<Rightarrow> content n | Some v \<Rightarrow> v)"
  "note_id (foldl setattr n (model_dump_exclude_unset nu)) = note_id n"
  "created_at (foldl setattr n (model_dump_exclude_unset nu)) = created_at n"
  "updated_at (foldl setattr n (model_dump_exclude_unset nu)) = updated_at n"
  by (simp_all add: model_dump_exclude_unset_def split: option.splits)

lemma delete_not_found:
  assumes "fst (get_by_id s nid) = None"
  shows "fst (delete s nid) = Inr False"
    and "heap (snd (delete s nid)) = heap s"
    and "notes' (snd (delete s nid)) = notes' s"
proof -
  obtain s1 where g: "get_by_id s nid = (None, s1)"
    using assms by (cases "get_by_id s nid") simp
  have "heap s1 = heap s" "notes' s1 = notes' s"
    using get_by_id_frame [of s nid] g by simp_all
  then show "fst (delete s nid) = Inr False"
    and "heap (snd (delete s nid)) = heap s"
    and "notes' (snd (delete s nid)) = notes' s"
    by (simp_all add: delete_def g)
qed

text \<open>
  The note that \<open>get_by_id\<close> found is the first one with its id, so no earlier
  element of the list compares equal to it: \<open>list.remove\<close> finds it and drops it.
\<close>

lemma list_remove_first_match:
  "find (\<lambda>x. note_id (h ! x) = nid) xs = Some r \<Longrightarrow> list_remove h r xs = Some (remove1 r xs)"
proof (induction xs)
  case Nil
  then show ?case by simp
next
  case (Cons x xs)
  show ?case
  proof (cases "note_id (h ! x) = nid")
    case True
    with Cons.prems show ?thesis by simp
  next
    case False
    with Cons.prems have f: "find (\<lambda>x. note_id (h ! x) = nid) xs = Some r" by simp
    then have "note_id (h ! r) = nid" by (auto simp: find_Some_iff)
    with False have "x \<noteq> r" "h ! x \<noteq> h ! r" by auto
    with Cons.IH [OF f] show ?thesis by simp
  qed
qed

lemma delete_found:
  assumes "fst (get_by_id s nid) = Some r"
  shows "fst (delete s nid) = Inr True"
    and "heap (snd (delete s nid)) = heap s"
    and "notes' (snd (delete s nid)) = remove1 r (notes' s)"
proof -
  obtain s1 where g: "get_by_id s nid = (Some r, s1)"
    using assms by (cases "get_by_id s nid") simp
  have fr: "heap s1 = heap s" "notes' s1 = notes' s"
    using get_by_id_frame [of s nid] g by simp_all
  have "list_remove (heap s1) r (notes' s1) = Some (remove1 r (notes' s))"
    using assms list_remove_first_match [of "heap s" nid "notes' s" r]
    by (simp add: fr get_by_id_fst)
  with fr show "fst (delete s nid) = Inr True"
    and "heap (snd (delete s nid)) = heap s"
    and "notes' (snd (delete s nid)) = remove1 r (notes' s)"
    by (simp_all add: delete_def g)
qed

lemma get_all_fst:
  "fst (get_all s) = sorted_reverse (\<lambda>x. created_at (heap s ! x)) (notes' s)"
  by (simp add: get_all_def Let_def)

lemma get_all_frame [simp]:
  "heap (snd (get_all s)) = heap s"
  "notes' (snd (get_all s)) = notes' s"
  by (simp_all add: get_all_def Let_def)

section \<open>Partial update\<close>



section \<open>Absent ids and reads\<close>

text \<open>
  Claim C5. For an id that no stored note has, \<open>get_by_id\<close> returns \<open>None\<close>,
  \<open>update\<close> returns \<open>None\<close> and \<open>delete\<close> returns \<open>False\<close> (a value, not an
  exception), and each leaves the collection and every note object as they were.
\<close>

theorem absent_id_is_a_value_and_changes_nothing:
  assumes "nid \<notin> set (stored_ids s)"
  shows "fst (get_by_id s nid) = None \<and>
         fst (update s nid nu now) = None \<and>
         fst (delete s nid) = Inr False \<and>
         heap (snd (get_by_id s nid)) = heap s \<and> notes' (snd (get_by_id s nid)) = notes' s \<and>
         heap (snd (update s nid nu now)) = heap s \<and> notes' (snd (update s nid nu now)) = notes' s \<and>
         heap (snd (delete s nid)) = heap s \<and> notes' (snd (delete s nid)) = notes' s"
proof -
  have g: "fst (get_by_id s nid) = None"
    using assms by (simp add: get_by_id_None_iff)
  show ?thesis
    using g update_not_found [OF g, of nu now] delete_not_found [OF g] by simp
qed

theorem absent_id_is_a_value_and_changes_nothing_witness:
  "99 \<notin> set (stored_ids store_ABC) \<and>
   fst (get_by_id store_ABC 99) = None \<and>
   fst (update store_ABC 99 \<lparr>u_title = Some (Some ''X''), u_content = None\<rparr> 500) = None \<and>
   fst (delete store_ABC 99) = Inr False \<and>
   heap (snd (update store_ABC 99 \<lparr>u_title = Some (Some ''X''), u_content = None\<rparr> 500)) = heap store_ABC \<and>
   notes' (snd (delete store_ABC 99)) = [0, 1, 2]"
proof -
  have h: "99 \<notin> set (stored_ids store_ABC)"
    by (simp add: stored_ids_def store_ABC_def note_A_def note_B_def note_C_def)
  show ?thesis
    using h absent_id_is_a_value_and_changes_nothing
      [OF h, of "\<lparr>u_title = Some (Some ''X''), u_content = None\<rparr>" 500]
    by (simp add: store_ABC_def)
qed

text \<open>
  Claim C10. \<open>get_all\<close> and \<open>get_by_id\<close> only read: after either call the collection
  holds the same references in the same order and every note object has the same field
  values. Their one effect is a log record.
\<close>

theorem reads_leave_the_collection_alone:
  "heap (snd (get_all s)) = heap s \<and> notes' (snd (get_all s)) = notes' s \<and>
   heap (snd (get_by_id s nid)) = heap s \<and> notes' (snd (get_by_id s nid)) = notes' s"
  by simp

section \<open>Listing\<close>

lemma sorted_reverse_mset [simp]: "mset (sorted_reverse k xs) = mset xs"
  by (simp add: sorted_reverse_def)

lemma sorted_reverse_set [simp]: "set (sorted_reverse k xs) = set xs"
  by (simp add: sorted_reverse_def)

lemma sorted_reverse_length [simp]: "length (sorted_reverse k xs) = length xs"
  by (simp add: sorted_reverse_def)

lemma sorted_reverse_descending: "sorted_wrt (\<lambda>a b. k b \<le> k a) (sorted_reverse k xs)"
proof -
  have "sorted (map k (sort_key k (rev xs)))"
    by simp
  then have "sorted_wrt (\<lambda>a b. k a \<le> k b) (sort_key k (rev xs))"
    by (simp add: sorted_wrt_map)
  then show ?thesis
    by (simp add: sorted_reverse_def sorted_wrt_rev)
qed

lemma sorted_reverse_stable:
  "filter (\<lambda>x. k x = t) (sorted_reverse k xs) = filter (\<lambda>x. k x = t) xs"
proof -
  have "filter (\<lambda>x. k x = t) (sorted_reverse k xs) = rev (filter (\<lambda>x. k x = t) (sort_key k (rev xs)))"
    by (simp add: sorted_reverse_def rev_filter)
  also have "\<dots> = rev (filter (\<lambda>x. k x = t) (rev xs))"
    by (simp only: sort_key_stable)
  also have "\<dots> = filter (\<lambda>x. k x = t) xs"
    by (simp add: rev_filter)
  finally show ?thesis .
qed

text \<open>
  Claim C4. \<open>get_all\<close> returns the stored notes, each as often as the collection holds
  it, in descending order of \<open>created_at\<close>; the notes that share a \<open>created_at\<close> come
  in the order the collection has them; on an empty collection the result is the empty
  list. The operation has no failing branch.
\<close>

theorem get_all_newest_first_and_stable:
  "mset (fst (get_all s)) = mset (notes' s) \<and>
   sorted_wrt (\<lambda>a b. created_at (heap s ! b) \<le> created_at (heap s ! a)) (fst (get_all s)) \<and>
   (\<forall>t. filter (\<lambda>r. created_at (heap s ! r) = t) (fst (get_all s)) =
        filter (\<lambda>r. created_at (heap s ! r) = t) (notes' s)) \<and>
   (notes' s = [] \<longrightarrow> fst (get_all s) = [])"
  by (simp add: get_all_fst sorted_reverse_descending sorted_reverse_stable)
    (simp add: sorted_reverse_def)

theorem get_all_newest_first_and_stable_witness:
  "notes' init = [] \<and> fst (get_all init) = [] \<and>
   fst (get_all store_ties) = [1, 0, 2] \<and>
   map (\<lambda>r. created_at (heap store_ties ! r)) (fst (get_all store_ties)) = [7, 5, 5]"
proof -
  have h: "notes' init = []"
    by (simp add: init_def)
  have "fst (get_all init) = []"
    using h get_all_newest_first_and_stable [of init] by blast
  moreover have "fst (get_all store_ties) = [1, 0, 2]"
    by (simp add: get_all_fst sorted_reverse_def store_ties_def note_A_def note_B_def note_C_def)
  ultimately show ?thesis
    using h by (simp add: store_ties_def note_A_def note_B_def note_C_def)
qed

section \<open>Deleting\<close>

lemma distinct_map_remove1_notin:
  assumes "distinct (map f xs)" and "r \<in> set xs"
  shows "f r \<notin> set (map f (remove1 r xs))"
proof -
  have d: "distinct xs" and i: "inj_on f (set xs)"
    using assms(1) by (simp_all add: distinct_map)
  have "set (remove1 r xs) = set xs - {r}"
    using d by simp
  then show ?thesis
    using i assms(2) by (auto simp: inj_on_def)
qed

text \<open>
  Claim C6. With unique ids, deleting the id of a stored note returns \<open>True\<close>, drops
  that note's reference from the collection and nothing else: every note object is as it
  was, the other references stay in their order, \<open>get_all\<close> is one shorter and no longer
  holds the id, and a second \<open>delete\<close> of the id returns \<open>False\<close>.
\<close>

theorem delete_removes_exactly_one:
  assumes "unique_ids s" and "nid \<in> set (stored_ids s)"
  shows "\<exists>r \<in> set (notes' s). note_id (heap s ! r) = nid \<and>
           fst (delete s nid) = Inr True \<and>
           (let s' = snd (delete s nid) in
              heap s' = heap s \<and>
              notes' s' = remove1 r (notes' s) \<and>
              set (notes' s') = set (notes' s) - {r} \<and>
              length (fst (get_all s')) + 1 = length (fst (get_all s)) \<and>
              nid \<notin> set (stored_ids s') \<and>
              nid \<notin> note_id ` set (view s' (fst (get_all s'))) \<and>
              fst (delete s' nid) = Inr False)"
proof -
  obtain r where g: "fst (get_by_id s nid) = Some r"
    using assms(2) by (rule get_by_id_found)
  have mem: "r \<in> set (notes' s)" and rid: "note_id (heap s ! r) = nid"
    using get_by_id_SomeD [OF g] by simp_all
  note d = delete_found [OF g]
  let ?s' = "snd (delete s nid)"
  have dist: "distinct (map (\<lambda>r. note_id (heap s ! r)) (notes' s))"
    using assms(1) by (simp add: unique_ids_def stored_ids_def)
  then have drefs: "distinct (notes' s)"
    by (simp add: distinct_map)
  have gone: "nid \<notin> set (stored_ids ?s')"
    using distinct_map_remove1_notin [OF dist mem] rid
    by (simp add: stored_ids_def d(2) d(3))
  have setr: "set (notes' ?s') = set (notes' s) - {r}"
    using drefs by (simp add: d(3))
  have len: "length (fst (get_all ?s')) + 1 = length (fst (get_all s))"
    using mem by (simp add: get_all_fst d(3) length_remove1) (cases "notes' s"; simp)
  have listed: "nid \<notin> note_id ` set (view ?s' (fst (get_all ?s')))"
    using gone by (simp add: view_def get_all_fst stored_ids_def image_image)
  have again: "fst (delete ?s' nid) = Inr False"
    using gone delete_not_found(1) [of ?s' nid] by (simp add: get_by_id_None_iff)
  show ?thesis
    using mem rid d(1) d(2) d(3) setr len gone listed again by (auto simp: Let_def)
qed

theorem delete_removes_exactly_one_witness:
  "unique_ids (create_all init calls_ABC) \<and> 22 \<in> set (stored_ids (create_all init calls_ABC)) \<and>
   fst (delete (create_all init calls_ABC) 22) = Inr True \<and>
   length (fst (get_all (snd (delete (create_all init calls_ABC) 22)))) = 2 \<and>
   stored_ids (snd (delete (create_all init calls_ABC) 22)) = [11, 33] \<and>
   fst (delete (snd (delete (create_all init calls_ABC) 22)) 22) = Inr False"
proof -
  let ?s = "create_all init calls_ABC"
  have hp: "heap ?s =
      [\<lparr>title = Some ''A'', content = Some ''a'', note_id = 11, created_at = 100, updated_at = 100\<rparr>,
       \<lparr>title = Some ''B'', content = Some ''b'', note_id = 22, created_at = 200, updated_at = 200\<rparr>,
       \<lparr>title = Some ''C'', content = Some ''c'', note_id = 33, created_at = 300, updated_at = 300\<rparr>]"
    and ns: "notes' ?s = [0, 1, 2]"
    by (simp_all add: calls_ABC_def init_def create_def Note_init_def NoteBase_valid_def)
  have h1: "unique_ids ?s"
    by (simp add: unique_ids_def stored_ids_def hp ns)
  have h2: "22 \<in> set (stored_ids ?s)"
    by (simp add: stored_ids_def hp ns)
  have g: "fst (get_by_id ?s 22) = Some 1"
    by (simp add: get_by_id_fst hp ns)
  have "stored_ids (snd (delete ?s 22)) = [11, 33]"
    by (simp add: stored_ids_def delete_found [OF g] hp ns)
  moreover have "length (fst (get_all ?s)) = 3"
    by (simp add: get_all_fst ns)
  ultimately show ?thesis
    using h1 h2 delete_removes_exactly_one [OF h1 h2] by (auto simp: Let_def)
qed

section \<open>Creating\<close>

lemma Note_init_InrD:
  assumes "Note_init note_data uid t1 t2 = Inr n"
  shows "n = \<lparr>title = Some (c_title note_data), content = Some (c_content note_data),
              note_id = uid, created_at = t1, updated_at = t2\<rparr>"
  using assms by (simp add: Note_init_def split: if_splits)

lemma create_ok:
  assumes "Note_init note_data uid t1 t2 = Inr n"
  shows "fst (create s note_data uid t1 t2) = Inr (length (heap s))"
    and "heap (snd (create s note_data uid t1 t2)) = heap s @ [n]"
    and "notes' (snd (create s note_data uid t1 t2)) = notes' s @ [length (heap s)]"
  using assms by (simp_all add: create_def Let_def)

lemma create_error:
  assumes "Note_init note_data uid t1 t2 = Inl e"
  shows "create s note_data uid t1 t2 = (Inl e, s)"
  using assms by (simp add: create_def)

lemma create_wf:
  assumes "wf s"
  shows "wf (snd (create s note_data uid t1 t2))"
proof (cases "Note_init note_data uid t1 t2")
  case (Inl e)
  then show ?thesis using assms by (simp add: create_error)
next
  case (Inr n)
  then show ?thesis using assms by (auto simp: wf_def create_ok)
qed

text \<open>An object allocated earlier is not touched by \<open>create\<close>.\<close>

lemma create_old_object:
  assumes "r < length (heap s)"
  shows "heap (snd (create s note_data uid t1 t2)) ! r = heap s ! r"
proof (cases "Note_init note_data uid t1 t2")
  case (Inl e)
  then show ?thesis by (simp add: create_error)
next
  case (Inr n)
  then show ?thesis using assms by (simp add: create_ok nth_append)
qed

lemma find_snoc:
  "find P (xs @ [a]) = (case find P xs of None \<Rightarrow> (if P a then Some a else None) | Some x \<Rightarrow> Some x)"
  by (induction xs) simp_all

text \<open>
  The part of claim C2 that the code keeps: when \<open>uuid4()\<close> returns an id that no stored
  note has, the created note is the one \<open>get_by_id\<close> returns for that id, with the
  payload's title and content.
\<close>

lemma create_then_get_by_id:
  assumes "wf s" and "uid \<notin> set (stored_ids s)"
    and "NoteBase_valid (c_title note_data) (c_content note_data)"
  shows "\<exists>r. fst (create s note_data uid t1 t2) = Inr r \<and>
           fst (get_by_id (snd (create s note_data uid t1 t2)) uid) = Some r \<and>
           heap (snd (create s note_data uid t1 t2)) ! r =
             \<lparr>title = Some (c_title note_data), content = Some (c_content note_data),
              note_id = uid, created_at = t1, updated_at = t2\<rparr>"
proof -
  let ?n = "\<lparr>title = Some (c_title note_data), content = Some (c_content note_data),
             note_id = uid, created_at = t1, updated_at = t2\<rparr>"
  let ?s' = "snd (create s note_data uid t1 t2)"
  have i: "Note_init note_data uid t1 t2 = Inr ?n"
    using assms(3) by (simp add: Note_init_def)
  note c = create_ok [OF i, of s]
  have old: "find (\<lambda>r. note_id ((heap s @ [?n]) ! r) = uid) (notes' s) = None"
    using assms(1,2) by (auto simp: find_None_iff wf_def stored_ids_def nth_append)
  have "fst (get_by_id ?s' uid) = Some (length (heap s))"
    by (simp add: get_by_id_fst c find_snoc old)
  moreover have "heap ?s' ! length (heap s) = ?n"
    by (simp add: c)
  ultimately show ?thesis
    using c(1) by simp
qed

text \<open>
  Claim C2. The round trip holds, but \<open>created_at\<close> and \<open>updated_at\<close> come from two
  readings of the clock, one per default factory: when the clock moves between them,
  the note that \<open>create\<close> returns, and that \<open>get_by_id\<close> returns for its id, has
  \<open>created_at\<close> different from \<open>updated_at\<close>.
\<close>

theorem create_reads_the_clock_twice:
  "NoteBase_valid ''T'' ''C'' \<and>
   fst (create init \<lparr>c_title = ''T'', c_content = ''C''\<rparr> 7 100 101) = Inr 0 \<and>
   fst (get_by_id (snd (create init \<lparr>c_title = ''T'', c_content = ''C''\<rparr> 7 100 101)) 7) = Some 0 \<and>
   heap (snd (get_by_id (snd (create init \<lparr>c_title = ''T'', c_content = ''C''\<rparr> 7 100 101)) 7)) ! 0 =
     \<lparr>title = Some ''T'', content = Some ''C'', note_id = 7, created_at = 100, updated_at = 101\<rparr> \<and>
   created_at (heap (snd (create init \<lparr>c_title = ''T'', c_content = ''C''\<rparr> 7 100 101)) ! 0) \<noteq>
   updated_at (heap (snd (create init \<lparr>c_title = ''T'', c_content = ''C''\<rparr> 7 100 101)) ! 0)"
  by (simp add: create_def Note_init_def NoteBase_valid_def init_def get_by_id_def Let_def)

section \<open>Order of the listing after a sequence of creates\<close>

lemma insort_key_snoc:
  "\<forall>x \<in> set xs. k x < k a \<Longrightarrow> insort_key k a xs = xs @ [a]"
  by (induction xs) auto

lemma sorted_reverse_strictly_increasing:
  "sorted_wrt (<) (map k xs) \<Longrightarrow> sorted_reverse k xs = rev xs"
proof (induction xs rule: rev_induct)
  case Nil
  then show ?case by (simp add: sorted_reverse_def)
next
  case (snoc a xs)
  from snoc.prems have inc: "sorted_wrt (<) (map k xs)" and top: "\<forall>x \<in> set xs. k x < k a"
    by (simp_all add: sorted_wrt_append)
  from snoc.IH [OF inc] have "sort_key k (rev xs) = xs"
    by (simp add: sorted_reverse_def)
  then have "sort_key k (rev (xs @ [a])) = xs @ [a]"
    using top by (simp add: insort_key_snoc)
  then show ?case
    by (simp add: sorted_reverse_def)
qed

lemma create_all_collection:
  assumes "wf s" and "\<forall>c \<in> set cs. \<not> isl (built c)"
  shows "wf (create_all s cs) \<and>
         map Inr (view (create_all s cs) (notes' (create_all s cs))) =
           map Inr (view s (notes' s)) @ map built cs \<and>
         map (\<lambda>r. created_at (heap (create_all s cs) ! r)) (notes' (create_all s cs)) =
           map (\<lambda>r. created_at (heap s ! r)) (notes' s) @ map created_reading cs"
  using assms
proof (induction cs arbitrary: s)
  case Nil
  then show ?case by simp
next
  case (Cons c cs)
  obtain note_data uid t1 t2 where c: "c = (note_data, uid, t1, t2)"
    by (cases c) auto
  from Cons.prems(2) c obtain n where i: "Note_init note_data uid t1 t2 = Inr n"
    by (cases "Note_init note_data uid t1 t2") auto
  let ?s1 = "snd (create s note_data uid t1 t2)"
  note k = create_ok [OF i, of s]
  have wf1: "wf ?s1"
    using Cons.prems(1) by (rule create_wf)
  have old: "\<forall>r \<in> set (notes' s). (heap s @ [n]) ! r = heap s ! r"
    using Cons.prems(1) by (simp add: wf_def nth_append)
  have v1: "view ?s1 (notes' ?s1) = view s (notes' s) @ [n]"
    using old by (simp add: view_def k)
  have t1: "map (\<lambda>r. created_at (heap ?s1 ! r)) (notes' ?s1) =
              map (\<lambda>r. created_at (heap s ! r)) (notes' s) @ [t1]"
    using old Note_init_InrD [OF i] by (simp add: k)
  have rest: "\<forall>c \<in> set cs. \<not> isl (built c)"
    using Cons.prems(2) by simp
  from Cons.IH [OF wf1 rest] show ?case
    by (simp add: c v1 t1 i)
qed

text \<open>
  Claim C3, amended. When the creation readings of a sequence of creates on a new store
  are strictly increasing, \<open>get_all\<close> returns the created notes in reverse creation
  order.
\<close>

theorem get_all_reverses_strictly_increasing_creates:
  assumes "\<forall>c \<in> set cs. \<not> isl (built c)"
    and "sorted_wrt (<) (map created_reading cs)"
  shows "map Inr (view (create_all init cs) (fst (get_all (create_all init cs)))) =
           rev (map built cs)"
proof -
  let ?s = "create_all init cs"
  have w: "wf init"
    by (simp add: wf_def init_def)
  have e: "notes' init = []"
    by (simp add: init_def)
  from create_all_collection [OF w assms(1)]
  have v: "map Inr (view ?s (notes' ?s)) = map built cs"
    and t: "map (\<lambda>r. created_at (heap ?s ! r)) (notes' ?s) = map created_reading cs"
    by (simp_all add: view_def e)
  have "fst (get_all ?s) = rev (notes' ?s)"
    using assms(2) by (simp add: get_all_fst sorted_reverse_strictly_increasing t)
  then have "map Inr (view ?s (fst (get_all ?s))) = rev (map Inr (view ?s (notes' ?s)))"
    by (simp add: view_def rev_map)
  also have "\<dots> = rev (map built cs)"
    by (simp only: v)
  finally show ?thesis .
qed

theorem get_all_reverses_strictly_increasing_creates_witness:
  "map isl (map built calls_ABC) = [False, False, False] \<and>
   sorted_wrt (<) (map created_reading calls_ABC) \<and>
   map title (view (create_all init calls_ABC) (fst (get_all (create_all init calls_ABC)))) =
     [Some ''C'', Some ''B'', Some ''A'']"
proof -
  have h1: "\<forall>c \<in> set calls_ABC. \<not> isl (built c)"
    by (simp add: calls_ABC_def Note_init_def NoteBase_valid_def)
  have h2: "sorted_wrt (<) (map created_reading calls_ABC)"
    by (simp add: calls_ABC_def)
  have "map Inr (view (create_all init calls_ABC) (fst (get_all (create_all init calls_ABC)))) =
          rev (map built calls_ABC)"
    using h1 h2 by (rule get_all_reverses_strictly_increasing_creates)
  also have "\<dots> = map Inr
      [\<lparr>title = Some ''C'', content = Some ''c'', note_id = 33, created_at = 300, updated_at = 300\<rparr>,
       \<lparr>title = Some ''B'', content = Some ''b'', note_id = 22, created_at = 200, updated_at = 200\<rparr>,
       \<lparr>title = Some ''A'', content = Some ''a'', note_id = 11, created_at = 100, updated_at = 100\<rparr>]"
    by (simp add: calls_ABC_def Note_init_def NoteBase_valid_def)
  finally have "view (create_all init calls_ABC) (fst (get_all (create_all init calls_ABC))) =
      [\<lparr>title = Some ''C'', content = Some ''c'', note_id = 33, created_at = 300, updated_at = 300\<rparr>,
       \<lparr>title = Some ''B'', content = Some ''b'', note_id = 22, created_at = 200, updated_at = 200\<rparr>,
       \<lparr>title = Some ''A'', content = Some ''a'', note_id = 11, created_at = 100, updated_at = 100\<rparr>]"
    by (rule map_injective) simp
  moreover have "map isl (map built calls_ABC) = [False, False, False]"
    by (simp add: calls_ABC_def Note_init_def NoteBase_valid_def)
  ultimately show ?thesis
    using h2 by simp
qed

text \<open>
  Claim C3 as stated fails when two creates read the same time: the stable sort keeps
  the tied notes in the order of the collection, the earlier first.
\<close>

theorem get_all_tied_creates_counterexample:
  "map isl (map built calls_tied) = [False, False] \<and>
   sorted (map created_reading calls_tied) \<and>
   map title (view (create_all init calls_tied) (notes' (create_all init calls_tied))) =
     [Some ''A'', Some ''B''] \<and>
   map title (view (create_all init calls_tied) (fst (get_all (create_all init calls_tied)))) =
     [Some ''A'', Some ''B''] \<and>
   map Inr (view (create_all init calls_tied) (fst (get_all (create_all init calls_tied)))) \<noteq>
     rev (map built calls_tied)"
  by (simp add: calls_tied_def init_def create_def Note_init_def NoteBase_valid_def
      get_all_def sorted_reverse_def view_def Let_def)

section \<open>Snapshots\<close>

lemma delete_heap [simp]: "heap (snd (delete s nid)) = heap s"
  by (cases "fst (get_by_id s nid)") (simp_all add: delete_not_found delete_found)

lemma clear_fields [simp]:
  "heap (clear s) = heap s"
  "notes' (clear s) = []"
  by (simp_all add: clear_def Let_def)

lemma update_heap:
  "heap (snd (update s nid nu now)) =
     (case fst (get_by_id s nid) of
        None \<Rightarrow> heap s
      | Some r \<Rightarrow> (heap s)[r := (foldl setattr (heap s ! r) (model_dump_exclude_unset nu))\<lparr>updated_at := now\<rparr>])"
  by (cases "fst (get_by_id s nid)") (simp_all add: update_not_found update_found)

lemma update_fst [simp]: "fst (update s nid nu now) = fst (get_by_id s nid)"
  by (cases "fst (get_by_id s nid)") (simp_all add: update_not_found update_found)

lemma update_notes [simp]: "notes' (snd (update s nid nu now)) = notes' s"
  by (cases "fst (get_by_id s nid)") (simp_all add: update_not_found update_found)

lemma get_by_id_after_get_all [simp]: "fst (get_by_id (snd (get_all s)) nid) = fst (get_by_id s nid)"
  by (simp add: get_by_id_fst)

text \<open>
  Claim C7 as stated fails for \<open>update\<close>: the list that \<open>get_all\<close> returned holds the
  store's own note objects, and \<open>update\<close> writes into the object.
\<close>

theorem snapshot_sees_later_update_counterexample:
  "fst (get_all store_ABC) = [2, 1, 0] \<and>
   map title (view (snd (get_all store_ABC)) (fst (get_all store_ABC))) =
     [Some ''C'', Some ''B'', Some ''A''] \<and>
   map title (view (snd (update (snd (get_all store_ABC)) 22
                           \<lparr>u_title = Some (Some ''B2''), u_content = None\<rparr> 500))
                   (fst (get_all store_ABC))) =
     [Some ''C'', Some ''B2'', Some ''A''] \<and>
   view (snd (update (snd (get_all store_ABC)) 22
                \<lparr>u_title = Some (Some ''B2''), u_content = None\<rparr> 500))
        (fst (get_all store_ABC)) \<noteq>
   view (snd (get_all store_ABC)) (fst (get_all store_ABC))"
proof -
  have l: "fst (get_all store_ABC) = [2, 1, 0]"
    by (simp add: get_all_fst sorted_reverse_def store_ABC_def note_A_def note_B_def note_C_def)
  have g: "fst (get_by_id store_ABC 22) = Some 1"
    by (simp add: get_by_id_fst store_ABC_def note_A_def note_B_def note_C_def)
  show ?thesis
    by (simp add: l view_def update_heap g model_dump_exclude_unset_def)
      (simp add: store_ABC_def note_A_def note_B_def note_C_def)
qed

text \<open>
  Claim C7, amended. The list that \<open>get_all\<close> returned is a new list, and a later
  \<open>create\<close>, \<open>delete\<close> or \<open>clear\<close> leaves the notes seen through it as they were
  returned. A later \<open>update\<close> leaves every note of the list but the one it found as it
  was; the one it found is in the list and shows the merged fields and the new
  \<open>updated_at\<close>.
\<close>

theorem snapshot_survives_all_but_update_of_its_notes:
  assumes "wf s"
  shows "view (snd (create (snd (get_all s)) note_data uid t1 t2)) (fst (get_all s)) =
           view s (fst (get_all s)) \<and>
         view (snd (delete (snd (get_all s)) nid)) (fst (get_all s)) = view s (fst (get_all s)) \<and>
         view (clear (snd (get_all s))) (fst (get_all s)) = view s (fst (get_all s)) \<and>
         (\<forall>r \<in> set (fst (get_all s)).
            fst (update (snd (get_all s)) nid nu now) \<noteq> Some r \<longrightarrow>
            heap (snd (update (snd (get_all s)) nid nu now)) ! r = heap s ! r) \<and>
         (\<forall>r. fst (update (snd (get_all s)) nid nu now) = Some r \<longrightarrow>
            r \<in> set (fst (get_all s)) \<and>
            heap (snd (update (snd (get_all s)) nid nu now)) ! r =
              (foldl setattr (heap s ! r) (model_dump_exclude_unset nu))\<lparr>updated_at := now\<rparr>)"
proof -
  let ?snap = "fst (get_all s)" and ?s0 = "snd (get_all s)"
  have snap: "set ?snap = set (notes' s)"
    by (simp add: get_all_fst)
  have inb: "\<forall>r \<in> set ?snap. r < length (heap ?s0)"
    using assms by (simp add: snap wf_def)
  have c: "view (snd (create ?s0 note_data uid t1 t2)) ?snap = view s ?snap"
    using inb create_old_object [of _ ?s0 note_data uid t1 t2] by (simp add: view_def)
  have d: "view (snd (delete ?s0 nid)) ?snap = view s ?snap"
    by (simp add: view_def)
  have e: "view (clear ?s0) ?snap = view s ?snap"
    by (simp add: view_def)
  have u1: "\<forall>r \<in> set ?snap. fst (update ?s0 nid nu now) \<noteq> Some r \<longrightarrow>
              heap (snd (update ?s0 nid nu now)) ! r = heap s ! r"
    by (auto simp: update_heap split: option.splits)
  have u2: "\<forall>r. fst (update ?s0 nid nu now) = Some r \<longrightarrow>
              r \<in> set ?snap \<and>
              heap (snd (update ?s0 nid nu now)) ! r =
                (foldl setattr (heap s ! r) (model_dump_exclude_unset nu))\<lparr>updated_at := now\<rparr>"
  proof (intro allI impI)
    fix r
    assume "fst (update ?s0 nid nu now) = Some r"
    then have g: "fst (get_by_id s nid) = Some r"
      by simp
    then have mem: "r \<in> set (notes' s)"
      by (rule get_by_id_SomeD)
    then have "r < length (heap s)"
      using assms by (simp add: wf_def)
    then show "r \<in> set ?snap \<and>
               heap (snd (update ?s0 nid nu now)) ! r =
                 (foldl setattr (heap s ! r) (model_dump_exclude_unset nu))\<lparr>updated_at := now\<rparr>"
      using mem g by (simp add: snap update_heap)
  qed
  from c d e u1 u2 show ?thesis
    by blast
qed

theorem snapshot_survives_all_but_update_of_its_notes_witness:
  "wf store_ABC \<and>
   view (snd (create (snd (get_all store_ABC)) \<lparr>c_title = ''D'', c_content = ''d''\<rparr> 44 400 400))
        (fst (get_all store_ABC)) = [note_C, note_B, note_A] \<and>
   view (snd (delete (snd (get_all store_ABC)) 22)) (fst (get_all store_ABC)) =
     [note_C, note_B, note_A] \<and>
   view (clear (snd (get_all store_ABC))) (fst (get_all store_ABC)) = [note_C, note_B, note_A] \<and>
   fst (update (snd (get_all store_ABC)) 22 \<lparr>u_title = Some (Some ''B2''), u_content = None\<rparr> 500) =
     Some 1 \<and>
   heap (snd (update (snd (get_all store_ABC)) 22
                \<lparr>u_title = Some (Some ''B2''), u_content = None\<rparr> 500)) ! 2 = note_C"
proof -
  have h: "wf store_ABC"
    by (simp add: wf_def store_ABC_def)
  have l: "fst (get_all store_ABC) = [2, 1, 0]"
    by (simp add: get_all_fst sorted_reverse_def store_ABC_def note_A_def note_B_def note_C_def)
  have g: "fst (get_by_id store_ABC 22) = Some 1"
    by (simp add: get_by_id_fst store_ABC_def note_A_def note_B_def note_C_def)
  have c: "heap store_ABC ! 2 = note_C"
    by (simp add: store_ABC_def)
  show ?thesis
    using h snapshot_survives_all_but_update_of_its_notes
      [OF h, of "\<lparr>c_title = ''D'', c_content = ''d''\<rparr>" 44 400 400 22
         "\<lparr>u_title = Some (Some ''B2''), u_content = None\<rparr>" 500]
    by (simp add: l g c) (simp add: view_def store_ABC_def)
qed

section \<open>Timestamps under a monotone clock\<close>

lemma created_by_mono: "created_by t s \<Longrightarrow> t \<le> t' \<Longrightarrow> created_by t' s"
  by (auto simp: created_by_def)

lemma delete_notes_subset: "set (notes' (snd (delete s nid))) \<subseteq> set (notes' s)"
proof (cases "fst (get_by_id s nid)")
  case None
  then show ?thesis by (simp add: delete_not_found)
next
  case (Some r)
  then show ?thesis using set_remove1_subset [of r "notes' s"] by (simp add: delete_found)
qed

lemma create_keeps_order:
  assumes "wf s" and "timestamps_ordered s" and "created_by t s" and "t \<le> t1" and "t1 \<le> t2"
  shows "timestamps_ordered (snd (create s note_data uid t1 t2))"
    and "created_by t2 (snd (create s note_data uid t1 t2))"
proof -
  have later: "created_by t2 s"
    using assms(3,4,5) by (auto intro: created_by_mono)
  show "timestamps_ordered (snd (create s note_data uid t1 t2))"
  proof (cases "Note_init note_data uid t1 t2")
    case (Inl e)
    then show ?thesis using assms(2) by (simp add: create_error)
  next
    case (Inr n)
    from Note_init_InrD [OF Inr] have "created_at n = t1" "updated_at n = t2"
      by simp_all
    then show ?thesis
      using assms(1,2,5) by (auto simp: timestamps_ordered_def wf_def create_ok [OF Inr] nth_append)
  qed
  show "created_by t2 (snd (create s note_data uid t1 t2))"
  proof (cases "Note_init note_data uid t1 t2")
    case (Inl e)
    then show ?thesis using later by (simp add: create_error)
  next
    case (Inr n)
    from Note_init_InrD [OF Inr] have "created_at n = t1"
      by simp
    then show ?thesis
      using assms(1,5) later by (auto simp: created_by_def wf_def create_ok [OF Inr] nth_append)
  qed
qed

lemma update_keeps_order:
  assumes "wf s" and "timestamps_ordered s" and "created_by t s" and "t \<le> now"
  shows "timestamps_ordered (snd (update s nid nu now))"
    and "created_by now (snd (update s nid nu now))"
proof -
  have later: "created_by now s"
    using assms(3,4) by (rule created_by_mono)
  show "timestamps_ordered (snd (update s nid nu now))"
  proof (cases "fst (get_by_id s nid)")
    case None
    then show ?thesis using assms(2) by (simp add: timestamps_ordered_def update_heap)
  next
    case (Some r0)
    show ?thesis
      unfolding timestamps_ordered_def
    proof
      fix r
      assume "r \<in> set (notes' (snd (update s nid nu now)))"
      then have mem: "r \<in> set (notes' s)"
        by simp
      then have len: "r < length (heap s)"
        using assms(1) by (simp add: wf_def)
      show "created_at (heap (snd (update s nid nu now)) ! r)
              \<le> updated_at (heap (snd (update s nid nu now)) ! r)"
      proof (cases "r = r0")
        case True
        have "created_at (heap s ! r) \<le> now"
          using later mem by (simp add: created_by_def)
        then show ?thesis
          using True len by (simp add: update_heap Some merged_fields)
      next
        case False
        then show ?thesis
          using assms(2) mem by (simp add: update_heap Some timestamps_ordered_def)
      qed
    qed
  qed
  show "created_by now (snd (update s nid nu now))"
  proof (cases "fst (get_by_id s nid)")
    case None
    then show ?thesis using later by (simp add: created_by_def update_heap)
  next
    case (Some r0)
    show ?thesis
      unfolding created_by_def
    proof
      fix r
      assume "r \<in> set (notes' (snd (update s nid nu now)))"
      then have mem: "r \<in> set (notes' s)"
        by simp
      then have len: "r < length (heap s)"
        using assms(1) by (simp add: wf_def)
      have "created_at (heap s ! r) \<le> now"
        using later mem by (simp add: created_by_def)
      then show "created_at (heap (snd (update s nid nu now)) ! r) \<le> now"
        using len by (cases "r = r0") (simp_all add: update_heap Some merged_fields)
    qed
  qed
qed

lemma update_wf: "wf s \<Longrightarrow> wf (snd (update s nid nu now))"
  by (simp add: wf_def update_heap split: option.splits)

lemma delete_wf: "wf s \<Longrightarrow> wf (snd (delete s nid))"
  using delete_notes_subset [of s nid] by (auto simp: wf_def)

lemma step_wf: "wf s \<Longrightarrow> wf (step s op)"
  by (cases op) (simp_all add: create_wf update_wf delete_wf, simp_all add: wf_def)

text \<open>
  One call. \<open>t\<close> is a reading of the clock that is not before the creation of any
  stored note; the call's own readings follow it in order.
\<close>

lemma step_keeps_order:
  assumes "wf s" and "timestamps_ordered s" and "created_by t s" and "sorted (t # clock_reads op)"
  shows "timestamps_ordered (step s op) \<and> created_by (last (t # clock_reads op)) (step s op)"
proof (cases op)
  case (Create note_data uid t1 t2)
  with assms(4) have "t \<le> t1" "t1 \<le> t2" by simp_all
  with assms(1,2,3) show ?thesis
    by (simp add: Create create_keeps_order)
next
  case GetAll
  with assms(2,3) show ?thesis
    by (simp add: timestamps_ordered_def created_by_def)
next
  case (GetById nid)
  with assms(2,3) show ?thesis
    by (simp add: timestamps_ordered_def created_by_def)
next
  case (Update nid nu now)
  with assms(4) have "t \<le> now" by simp
  with assms(1,2,3) show ?thesis
    by (simp add: Update update_keeps_order)
next
  case (Delete nid)
  with assms(2,3) delete_notes_subset [of s nid] show ?thesis
    by (auto simp: timestamps_ordered_def created_by_def)
next
  case Clear
  then show ?thesis
    by (simp add: timestamps_ordered_def created_by_def)
qed

lemma sorted_split_reads:
  assumes "sorted (t # xs @ ys)"
  shows "sorted (t # xs)" and "sorted (last (t # xs) # ys)"
proof -
  from assms have a: "sorted ((t # xs) @ ys)" by simp
  then show "sorted (t # xs)"
    unfolding sorted_append by blast
  from a have "\<forall>y \<in> set ys. last (t # xs) \<le> y"
    unfolding sorted_append using last_in_set [of "t # xs"] by blast
  moreover from a have "sorted ys"
    unfolding sorted_append by blast
  ultimately show "sorted (last (t # xs) # ys)"
    by simp
qed

text \<open>
  Claim C8. Take a store whose notes all have \<open>created_at \<le> updated_at\<close>, and a
  reading \<open>t\<close> of the clock not before the creation of any of them. After any sequence of
  calls of \<open>create\<close>, \<open>get_all\<close>, \<open>get_by_id\<close>, \<open>update\<close>, \<open>delete\<close> and \<open>clear\<close>
  during which the clock never goes back, every stored note still has
  \<open>created_at \<le> updated_at\<close>. (A single call is the sequence of length one; a new store
  satisfies the premises for any \<open>t\<close>.)
\<close>

theorem monotone_clock_keeps_created_before_updated:
  assumes "wf s" and "timestamps_ordered s" and "created_by t s"
    and "sorted (t # concat (map clock_reads ops))"
  shows "timestamps_ordered (foldl step s ops)"
  using assms
proof (induction ops arbitrary: s t)
  case Nil
  then show ?case by simp
next
  case (Cons op ops)
  from Cons.prems(4) have "sorted (t # clock_reads op @ concat (map clock_reads ops))"
    by simp
  then have one: "sorted (t # clock_reads op)"
    and rest: "sorted (last (t # clock_reads op) # concat (map clock_reads ops))"
    by (rule sorted_split_reads)+
  from step_keeps_order [OF Cons.prems(1,2,3) one]
  have o: "timestamps_ordered (step s op)"
    and c: "created_by (last (t # clock_reads op)) (step s op)"
    by simp_all
  have w: "wf (step s op)"
    using Cons.prems(1) by (rule step_wf)
  from Cons.IH [OF w o c rest] show ?case
    by simp
qed

theorem monotone_clock_keeps_created_before_updated_witness:
  "wf init \<and> timestamps_ordered init \<and> created_by 0 init \<and>
   sorted (0 # concat (map clock_reads calls_mixed)) \<and>
   timestamps_ordered (foldl step init calls_mixed) \<and>
   notes' (foldl step init calls_mixed) = [0, 2] \<and>
   heap (foldl step init calls_mixed) =
     [\<lparr>title = Some ''A2'', content = Some ''a'', note_id = 11, created_at = 100, updated_at = 300\<rparr>,
      \<lparr>title = Some ''B'', content = Some ''b'', note_id = 22, created_at = 200, updated_at = 201\<rparr>,
      \<lparr>title = Some ''C'', content = Some ''c'', note_id = 33, created_at = 400, updated_at = 400\<rparr>]"
proof -
  have h1: "wf init"
    by (simp add: wf_def init_def)
  have h2: "timestamps_ordered init"
    by (simp add: timestamps_ordered_def init_def)
  have h3: "created_by 0 init"
    by (simp add: created_by_def init_def)
  have h4: "sorted (0 # concat (map clock_reads calls_mixed))"
    by (simp add: calls_mixed_def)
  show ?thesis
    using h1 h2 h3 h4 monotone_clock_keeps_created_before_updated [OF h1 h2 h3 h4]
    by (simp add: calls_mixed_def init_def create_def Note_init_def NoteBase_valid_def
        get_all_def get_by_id_def update_def delete_def Let_def model_dump_exclude_unset_def)
qed

section \<open>Partial update and the clock\<close>

lemma updated_by_mono: "updated_by t s \<Longrightarrow> t \<le> t' \<Longrightarrow> updated_by t' s"
  by (auto simp: updated_by_def)

lemma create_keeps_updated_by:
  assumes "wf s" and "updated_by t s" and "t \<le> t1" and "t1 \<le> t2"
  shows "updated_by t2 (snd (create s note_data uid t1 t2))"
proof -
  have later: "updated_by t2 s"
    using assms(2,3,4) by (auto intro: updated_by_mono)
  show ?thesis
  proof (cases "Note_init note_data uid t1 t2")
    case (Inl e)
    then show ?thesis using later by (simp add: create_error)
  next
    case (Inr n)
    from Note_init_InrD [OF Inr] have "updated_at n = t2"
      by simp
    then show ?thesis
      using assms(1) later by (auto simp: updated_by_def wf_def create_ok [OF Inr] nth_append)
  qed
qed

lemma update_keeps_updated_by:
  assumes "wf s" and "updated_by t s" and "t \<le> now"
  shows "updated_by now (snd (update s nid nu now))"
proof -
  have later: "updated_by now s"
    using assms(2,3) by (rule updated_by_mono)
  show ?thesis
  proof (cases "fst (get_by_id s nid)")
    case None
    then show ?thesis using later by (simp add: updated_by_def update_heap)
  next
    case (Some r0)
    show ?thesis
      unfolding updated_by_def
    proof
      fix r
      assume "r \<in> set (notes' (snd (update s nid nu now)))"
      then have mem: "r \<in> set (notes' s)"
        by simp
      then have len: "r < length (heap s)"
        using assms(1) by (simp add: wf_def)
      have "updated_at (heap s ! r) \<le> now"
        using later mem by (simp add: updated_by_def)
      then show "updated_at (heap (snd (update s nid nu now)) ! r) \<le> now"
        using len by (cases "r = r0") (simp_all add: update_heap Some)
    qed
  qed
qed

lemma step_keeps_updated_by:
  assumes "wf s" and "updated_by t s" and "sorted (t # clock_reads op)"
  shows "updated_by (last (t # clock_reads op)) (step s op)"
proof (cases op)
  case (Create note_data uid t1 t2)
  with assms(3) have "t \<le> t1" "t1 \<le> t2" by simp_all
  with assms(1,2) show ?thesis
    by (simp add: Create create_keeps_updated_by)
next
  case GetAll
  with assms(2) show ?thesis
    by (simp add: updated_by_def)
next
  case (GetById nid)
  with assms(2) show ?thesis
    by (simp add: updated_by_def)
next
  case (Update nid nu now)
  with assms(3) have "t \<le> now" by simp
  with assms(1,2) show ?thesis
    by (simp add: Update update_keeps_updated_by)
next
  case (Delete nid)
  with assms(2) delete_notes_subset [of s nid] show ?thesis
    by (auto simp: updated_by_def)
next
  case Clear
  then show ?thesis
    by (simp add: updated_by_def)
qed

lemma last_of_split_reads: "last (last (t # xs) # ys) = last (t # xs @ ys)"
proof -
  have "last ((t # xs) @ ys) = (if ys = [] then last (t # xs) else last ys)"
    by (rule last_append)
  then show ?thesis
    by (cases "ys = []") simp_all
qed

lemma run_wf: "wf s \<Longrightarrow> wf (foldl step s ops)"
  by (induction ops arbitrary: s) (simp_all add: step_wf)

text \<open>
  A run of calls during which the clock never goes back: no stored note has an
  \<open>updated_at\<close> after the last reading. \<open>t\<close> is a reading taken before the run; for a
  new store any \<open>t\<close> will do.
\<close>

lemma run_keeps_updated_by:
  assumes "wf s" and "updated_by t s" and "sorted (t # concat (map clock_reads ops))"
  shows "updated_by (last (t # concat (map clock_reads ops))) (foldl step s ops)"
  using assms
proof (induction ops arbitrary: s t)
  case Nil
  then show ?case by simp
next
  case (Cons op ops)
  from Cons.prems(3) have "sorted (t # clock_reads op @ concat (map clock_reads ops))"
    by simp
  then have one: "sorted (t # clock_reads op)"
    and rest: "sorted (last (t # clock_reads op) # concat (map clock_reads ops))"
    by (rule sorted_split_reads)+
  have u: "updated_by (last (t # clock_reads op)) (step s op)"
    using Cons.prems(1,2) one by (rule step_keeps_updated_by)
  have w: "wf (step s op)"
    using Cons.prems(1) by (rule step_wf)
  from Cons.IH [OF w u rest] show ?case
    by (simp only: last_of_split_reads foldl_Cons list.map concat.simps)
qed

lemma init_updated_by: "updated_by t init"
  by (simp add: updated_by_def init_def)

text \<open>
  Claim C1. Let \<open>s\<close> be the state after a run \<open>ops\<close> of calls of the store's operations
  from a state \<open>s0\<close> (the run may be empty, and \<open>s0\<close> may be a new store). When a note
  with the id is stored in \<open>s\<close>, \<open>update\<close> returns that note, and in it every field
  present in the payload has the payload's value, every field absent from the payload
  has its prior value, \<open>note_id\<close> and \<open>created_at\<close> are as before and \<open>updated_at\<close>
  is the clock reading \<open>now\<close>, whatever the payload holds. Nothing else changes: the
  collection holds the same references and every other object is as it was. When the
  clock has not gone back, \<open>updated_at\<close> is not below its prior value: that is, when
  no note of \<open>s0\<close> was updated after a reading \<open>t\<close>, and \<open>t\<close>, the readings of the
  run and \<open>now\<close> are in non-decreasing order.
\<close>

theorem update_merges_fields_and_stamps:
  assumes "wf s0" and "s = foldl step s0 ops" and "nid \<in> set (stored_ids s)"
  shows "\<exists>r \<in> set (notes' s). note_id (heap s ! r) = nid \<and>
           fst (update s nid nu now) = Some r \<and>
           (let n = heap s ! r; s' = snd (update s nid nu now); n' = heap s' ! r in
              title n' = (case u_title nu of None \<Rightarrow> title n | Some v \<Rightarrow> v) \<and>
              content n' = (case u_content nu of None \<Rightarrow> content n | Some v \<Rightarrow> v) \<and>
              note_id n' = note_id n \<and> created_at n' = created_at n \<and>
              updated_at n' = now \<and>
              (updated_by t s0 \<and> sorted (t # concat (map clock_reads ops) @ [now]) \<longrightarrow>
                 updated_at n \<le> updated_at n') \<and>
              notes' s' = notes' s \<and> length (heap s') = length (heap s) \<and>
              (\<forall>q. q \<noteq> r \<longrightarrow> heap s' ! q = heap s ! q))"
proof -
  have w: "wf s"
    using assms(1,2) by (simp add: run_wf)
  obtain r where g: "fst (get_by_id s nid) = Some r"
    using assms(3) by (rule get_by_id_found)
  have mem: "r \<in> set (notes' s)" and rid: "note_id (heap s ! r) = nid"
    using get_by_id_SomeD [OF g] by simp_all
  have len: "r < length (heap s)"
    using w mem by (simp add: wf_def)
  note u = update_found [OF g, of nu now]
  have new: "heap (snd (update s nid nu now)) ! r =
          (foldl setattr (heap s ! r) (model_dump_exclude_unset nu))\<lparr>updated_at := now\<rparr>"
    using len by (simp add: u(2))
  have others: "\<forall>q. q \<noteq> r \<longrightarrow> heap (snd (update s nid nu now)) ! q = heap s ! q"
    by (simp add: u(2))
  have same_len: "length (heap (snd (update s nid nu now))) = length (heap s)"
    by (simp add: u(2))
  have clock: "updated_at (heap s ! r) \<le> updated_at (heap (snd (update s nid nu now)) ! r)"
    if past: "updated_by t s0" and mono: "sorted (t # concat (map clock_reads ops) @ [now])"
  proof -
    from mono have run: "sorted (t # concat (map clock_reads ops))"
      and "sorted (last (t # concat (map clock_reads ops)) # [now])"
      by (rule sorted_split_reads)+
    then have le: "last (t # concat (map clock_reads ops)) \<le> now"
      by simp
    have "updated_by (last (t # concat (map clock_reads ops))) s"
      unfolding assms(2) using assms(1) past run by (rule run_keeps_updated_by)
    then have "updated_at (heap s ! r) \<le> last (t # concat (map clock_reads ops))"
      using mem by (simp add: updated_by_def)
    with le show ?thesis
      by (simp add: new)
  qed
  show ?thesis
    using mem rid u(1) u(3) new others same_len clock
    by (simp add: Let_def merged_fields)
qed

text \<open>
  The run \<open>calls_mixed\<close> on a new store leaves note 11 with title \<open>A2\<close> and
  \<open>updated_at = 300\<close>, from its \<open>update\<close> at that time; a second \<open>update\<close> at 500 sets
  the content only.
\<close>

theorem update_merges_fields_and_stamps_witness:
  "wf init \<and> 11 \<in> set (stored_ids (foldl step init calls_mixed)) \<and>
   updated_by 0 init \<and> sorted (0 # concat (map clock_reads calls_mixed) @ [500]) \<and>
   heap (foldl step init calls_mixed) ! 0 =
     \<lparr>title = Some ''A2'', content = Some ''a'', note_id = 11, created_at = 100, updated_at = 300\<rparr> \<and>
   fst (update (foldl step init calls_mixed) 11 \<lparr>u_title = None, u_content = Some (Some ''a2'')\<rparr> 500) =
     Some 0 \<and>
   heap (snd (update (foldl step init calls_mixed) 11
                \<lparr>u_title = None, u_content = Some (Some ''a2'')\<rparr> 500)) ! 0 =
     \<lparr>title = Some ''A2'', content = Some ''a2'', note_id = 11, created_at = 100, updated_at = 500\<rparr> \<and>
   updated_at (heap (foldl step init calls_mixed) ! 0) \<le>
   updated_at (heap (snd (update (foldl step init calls_mixed) 11
                            \<lparr>u_title = None, u_content = Some (Some ''a2'')\<rparr> 500)) ! 0)"
proof -
  let ?s = "foldl step init calls_mixed"
  have h1: "wf init"
    by (simp add: wf_def init_def)
  have hp: "heap ?s =
      [\<lparr>title = Some ''A2'', content = Some ''a'', note_id = 11, created_at = 100, updated_at = 300\<rparr>,
       \<lparr>title = Some ''B'', content = Some ''b'', note_id = 22, created_at = 200, updated_at = 201\<rparr>,
       \<lparr>title = Some ''C'', content = Some ''c'', note_id = 33, created_at = 400, updated_at = 400\<rparr>]"
    and ns: "notes' ?s = [0, 2]"
    by (simp_all add: calls_mixed_def init_def create_def Note_init_def NoteBase_valid_def
        get_all_def get_by_id_def update_def delete_def Let_def model_dump_exclude_unset_def)
  have h2: "11 \<in> set (stored_ids ?s)"
    by (simp add: stored_ids_def hp ns)
  have h3: "updated_by 0 init"
    by (simp add: updated_by_def init_def)
  have h4: "sorted (0 # concat (map clock_reads calls_mixed) @ [500])"
    by (simp add: calls_mixed_def)
  have g: "fst (get_by_id ?s 11) = Some 0"
    by (simp add: get_by_id_fst hp ns)
  show ?thesis
    using h1 h2 h3 h4
      update_merges_fields_and_stamps [OF h1 refl h2,
        of "\<lparr>u_title = None, u_content = Some (Some ''a2'')\<rparr>" 500 0]
    by (simp add: Let_def g hp)
qed

section \<open>Unique ids\<close>

text \<open>
  The premise of unique ids in the theorem on \<open>delete\<close> is an invariant of the store:
  a new store has it, and every call keeps it, provided \<open>uuid4()\<close> never returns the id
  of a stored note.
\<close>

lemma init_wf_unique_ids: "wf init" "unique_ids init"
  by (simp_all add: wf_def unique_ids_def stored_ids_def init_def)

lemma create_stored_ids:
  assumes "wf s" and "Note_init note_data uid t1 t2 = Inr n"
  shows "stored_ids (snd (create s note_data uid t1 t2)) = stored_ids s @ [uid]"
proof -
  have "note_id n = uid"
    using Note_init_InrD [OF assms(2)] by simp
  then show ?thesis
    using assms(1) by (simp add: stored_ids_def create_ok [OF assms(2)] wf_def nth_append)
qed

lemma update_stored_ids:
  assumes "wf s"
  shows "stored_ids (snd (update s nid nu now)) = stored_ids s"
proof -
  have "\<forall>r \<in> set (notes' s). note_id (heap (snd (update s nid nu now)) ! r) = note_id (heap s ! r)"
  proof
    fix r
    assume "r \<in> set (notes' s)"
    then have "r < length (heap s)"
      using assms by (simp add: wf_def)
    then show "note_id (heap (snd (update s nid nu now)) ! r) = note_id (heap s ! r)"
    proof (cases "fst (get_by_id s nid)")
      case None
      then show ?thesis by (simp add: update_heap)
    next
      case (Some r0)
      with \<open>r < length (heap s)\<close> show ?thesis
        by (cases "r = r0") (simp_all add: update_heap merged_fields)
    qed
  qed
  then show ?thesis
    by (simp add: stored_ids_def)
qed

lemma delete_unique_ids:
  assumes "unique_ids s"
  shows "unique_ids (snd (delete s nid))"
proof (cases "fst (get_by_id s nid)")
  case None
  then show ?thesis using assms by (simp add: unique_ids_def stored_ids_def delete_not_found)
next
  case (Some r)
  from assms have d: "distinct (notes' s)" and i: "inj_on (\<lambda>r. note_id (heap s ! r)) (set (notes' s))"
    by (simp_all add: unique_ids_def stored_ids_def distinct_map)
  have "inj_on (\<lambda>r. note_id (heap s ! r)) (set (remove1 r (notes' s)))"
    using i set_remove1_subset [of r "notes' s"] by (rule inj_on_subset)
  then show ?thesis
    using d by (simp add: unique_ids_def stored_ids_def delete_found [OF Some] distinct_map)
qed

lemma step_keeps_unique_ids:
  assumes "wf s" and "unique_ids s"
    and "\<And>note_data uid t1 t2. op = Create note_data uid t1 t2 \<Longrightarrow> uid \<notin> set (stored_ids s)"
  shows "unique_ids (step s op)"
proof (cases op)
  case (Create note_data uid t1 t2)
  then have fresh: "uid \<notin> set (stored_ids s)"
    by (rule assms(3))
  show ?thesis
  proof (cases "Note_init note_data uid t1 t2")
    case (Inl e)
    then show ?thesis using assms(2) by (simp add: Create create_error)
  next
    case (Inr n)
    then show ?thesis
      using assms(1,2) fresh by (simp add: Create unique_ids_def create_stored_ids)
  qed
next
  case GetAll
  then show ?thesis using assms(2) by (simp add: unique_ids_def stored_ids_def)
next
  case (GetById nid)
  then show ?thesis using assms(2) by (simp add: unique_ids_def stored_ids_def)
next
  case (Update nid nu now)
  then show ?thesis using assms(1,2) by (simp add: unique_ids_def update_stored_ids)
next
  case (Delete nid)
  then show ?thesis using assms(2) by (simp add: delete_unique_ids)
next
  case Clear
  then show ?thesis by (simp add: unique_ids_def stored_ids_def)
qed

end
